theory Spec2Isabelle
  imports Complex_Main "HOL-Library.AList" "HOL-Library.Multiset"
begin

section \<open>Python values\<close>

text \<open>
  The ledger stores whatever the caller hands to \<open>add_transaction\<close>, so the payloads are
  dynamically typed. The model covers the values that \<open>json.dumps\<close> can serialise:
  \<open>None\<close>, booleans, unbounded integers, floats, strings, lists, and dictionaries with
  string keys (an association list in insertion order, keys distinct).
  A finite float is represented by its exact rational value; the only operations the program
  applies to a float are \<open>int()\<close> and its use as a dictionary key, and both depend on
  that value alone. Characters are code points below 256.
\<close>

datatype pyfloat = Finite rat | PosInf | NegInf | NaN

datatype pyval =
    PNone
  | PBool bool
  | PInt int
  | PFloat pyfloat
  | PStr string
  | PList "pyval list"
  | PDict "(string \<times> pyval) list"

datatype error = ValueError | TypeError | OverflowError | IndexError

subsection \<open>The built-in \<open>int()\<close>\<close>

text \<open>
  \<open>int(s)\<close> on a string: surrounding whitespace is stripped, one sign is allowed, then
  decimal digits follow, with single underscores allowed between digits. Anything else
  raises \<open>ValueError\<close>. (The interpreter's configurable limit on the number of digits is
  not modelled.)
\<close>

definition is_space :: "char \<Rightarrow> bool" where
  "is_space c = (of_char c \<in> {9, 10, 11, 12, 13, 32, 133, 160 :: nat})"

definition is_digit :: "char \<Rightarrow> bool" where
  "is_digit c = (48 \<le> (of_char c :: nat) \<and> (of_char c :: nat) \<le> 57)"

definition digit_val :: "char \<Rightarrow> nat" where
  "digit_val c = of_char c - 48"

definition strip :: "string \<Rightarrow> string" where
  "strip s = rev (dropWhile is_space (rev (dropWhile is_space s)))"

fun digits_from :: "bool \<Rightarrow> nat \<Rightarrow> string \<Rightarrow> nat option" where
  "digits_from after_digit acc [] = (if after_digit then Some acc else None)"
| "digits_from after_digit acc (c # cs) =
     (if is_digit c then digits_from True (10 * acc + digit_val c) cs
      else if c = CHR ''_'' \<and> after_digit then digits_from False acc cs
      else None)"

definition int_of_str :: "string \<Rightarrow> int option" where
  "int_of_str s =
     (case strip s of
        [] \<Rightarrow> None
      | c # cs \<Rightarrow>
          if c = CHR ''-'' then map_option (\<lambda>n. - int n) (digits_from False 0 cs)
          else if c = CHR ''+'' then map_option int (digits_from False 0 cs)
          else map_option int (digits_from False 0 (c # cs)))"

text \<open>\<open>int(x)\<close> on a float truncates toward zero.\<close>

definition py_trunc :: "rat \<Rightarrow> int" where
  "py_trunc r = (if 0 \<le> r then \<lfloor>r\<rfloor> else \<lceil>r\<rceil>)"

fun py_int :: "pyval \<Rightarrow> error + int" where
  "py_int (PInt i) = Inr i"
| "py_int (PBool b) = Inr (if b then 1 else 0)"
| "py_int (PFloat (Finite r)) = Inr (py_trunc r)"
| "py_int (PFloat NaN) = Inl ValueError"
| "py_int (PFloat PosInf) = Inl OverflowError"
| "py_int (PFloat NegInf) = Inl OverflowError"
| "py_int (PStr s) = (case int_of_str s of None \<Rightarrow> Inl ValueError | Some i \<Rightarrow> Inr i)"
| "py_int PNone = Inl TypeError"
| "py_int (PList xs) = Inl TypeError"
| "py_int (PDict kvs) = Inl TypeError"

subsection \<open>Dictionaries\<close>

fun is_dict :: "pyval \<Rightarrow> bool" where
  "is_dict (PDict kvs) = True"
| "is_dict v = False"


text \<open>
  \<open>key in d\<close> and \<open>d[key]\<close> for a dictionary \<open>d\<close>. The program reads a key only
  after it has checked that the value is a dictionary that has it, so the \<open>KeyError\<close> of
  a missing key cannot arise; \<open>getitem\<close> gives \<open>None\<close> there.
\<close>

fun has_key :: "string \<Rightarrow> pyval \<Rightarrow> bool" where
  "has_key k (PDict kvs) = (map_of kvs k \<noteq> None)"
| "has_key k v = False"

fun getitem :: "pyval \<Rightarrow> string \<Rightarrow> pyval" where
  "getitem (PDict kvs) k = (case map_of kvs k of Some v \<Rightarrow> v | None \<Rightarrow> PNone)"
| "getitem v k = PNone"

text \<open>
  A value used as a dictionary key must be hashable: lists and dictionaries raise
  \<open>TypeError\<close>. Python identifies keys that compare equal, so \<open>True\<close>, \<open>1\<close> and \<open>1.0\<close>
  are one key; \<open>dict_key\<close> maps a key to the representative of its class.
\<close>

fun dict_key :: "pyval \<Rightarrow> error + pyval" where
  "dict_key (PList xs) = Inl TypeError"
| "dict_key (PDict kvs) = Inl TypeError"
| "dict_key (PBool b) = Inr (PInt (if b then 1 else 0))"
| "dict_key (PFloat (Finite r)) =
     (if of_int \<lfloor>r\<rfloor> = r then Inr (PInt \<lfloor>r\<rfloor>) else Inr (PFloat (Finite r)))"
| "dict_key v = Inr v"

section \<open>Block\<close>

text \<open>
  The timestamp is a \<open>datetime\<close>; the program only ever reads it through \<open>str()\<close>, so
  it is represented by that rendering.
\<close>

record block =
  index :: int
  timestamp :: string
  transactions :: pyval
  previous_hash :: string
  nonce :: int
  hash :: string

text \<open>
  \<open>calculate_hash\<close> is \<open>sha256(json.dumps({...}, sort_keys=True).encode()).hexdigest()\<close>
  of the five content fields. The library functions are not part of the repository: their
  composition is the parameter \<open>dg\<close>, a function from the five fields to a string.
\<close>

type_synonym content = "int \<times> string \<times> pyval \<times> string \<times> int"
type_synonym digest = "content \<Rightarrow> string"

definition calculate_hash :: "digest \<Rightarrow> block \<Rightarrow> string" where
  "calculate_hash dg b =
     dg (index b, timestamp b, transactions b, previous_hash b, nonce b)"

text \<open>The constructor \<open>Block(index, timestamp, transactions, previous_hash, nonce=0)\<close>.\<close>

definition Block :: "digest \<Rightarrow> int \<Rightarrow> string \<Rightarrow> pyval \<Rightarrow> string \<Rightarrow> int \<Rightarrow> block" where
  "Block dg i ts txs ph n =
     (let b = \<lparr>index = i, timestamp = ts, transactions = txs, previous_hash = ph,
                nonce = n, hash = []\<rparr>
      in b\<lparr>hash := calculate_hash dg b\<rparr>)"

definition startswith :: "string \<Rightarrow> string \<Rightarrow> bool" where
  "startswith s p = (take (length p) s = p)"

definition target :: "nat \<Rightarrow> string" where
  "target difficulty = replicate difficulty CHR ''0''"

text \<open>
  \<open>mine_block\<close>: the proof-of-work loop has no iteration bound, so the model is a partial
  function; \<open>None\<close> stands for a search that never returns.
\<close>

definition bump_nonce :: "digest \<Rightarrow> block \<Rightarrow> block" where
  "bump_nonce dg b = (let b' = b\<lparr>nonce := nonce b + 1\<rparr> in b'\<lparr>hash := calculate_hash dg b'\<rparr>)"

partial_function (option) mine_block :: "digest \<Rightarrow> nat \<Rightarrow> block \<Rightarrow> block option" where
  "mine_block dg difficulty b =
     (if startswith (hash b) (target difficulty) then Some b
      else mine_block dg difficulty (bump_nonce dg b))"

declare mine_block.simps [code]

section \<open>Blockchain\<close>

text \<open>
  \<open>save_log\<close> records every call of \<open>save_chain\<close>: the chain handed to \<open>pickle.dump\<close>,
  oldest call first.
\<close>

record blockchain =
  chain_blocks :: "block list"
  pending_transactions :: "pyval list"
  difficulty :: nat
  save_log :: "block list list"

definition save_chain :: "blockchain \<Rightarrow> blockchain" where
  "save_chain s = s\<lparr>save_log := save_log s @ [chain_blocks s]\<rparr>"

definition create_genesis_block :: "digest \<Rightarrow> string \<Rightarrow> blockchain \<Rightarrow> blockchain option" where
  "create_genesis_block dg now s =
     (case mine_block dg (difficulty s) (Block dg 0 now (PStr ''Genesis Block'') ''0'' 0) of
        None \<Rightarrow> None
      | Some genesis_block \<Rightarrow> Some (s\<lparr>chain_blocks := chain_blocks s @ [genesis_block]\<rparr>))"

text \<open>The constructor when no chain file exists: a fresh genesis block, then a save.\<close>

definition new_blockchain :: "digest \<Rightarrow> string \<Rightarrow> nat \<Rightarrow> blockchain option" where
  "new_blockchain dg now d =
     map_option save_chain
       (create_genesis_block dg now
          \<lparr>chain_blocks = [], pending_transactions = [], difficulty = d, save_log = []\<rparr>)"

definition get_latest_block :: "blockchain \<Rightarrow> error + block" where
  "get_latest_block s =
     (if chain_blocks s = [] then Inl IndexError else Inr (last (chain_blocks s)))"

text \<open>
  \<open>add_transaction\<close> returns \<open>True\<close> or \<open>False\<close>; an exception other than
  \<open>ValueError\<close> and \<open>TypeError\<close> raised by \<open>int()\<close> is not caught (\<open>Inl\<close>), and the
  state is then as before the call. \<open>str()\<close> succeeds on every value.
\<close>

definition add_transaction :: "blockchain \<Rightarrow> pyval \<Rightarrow> error + (blockchain \<times> bool)" where
  "add_transaction s transaction =
     (if \<not> is_dict transaction \<or> \<not> has_key ''item_id'' transaction
         \<or> \<not> has_key ''change'' transaction
      then Inr (s, False)
      else case py_int (getitem transaction ''change'') of
             Inl ValueError \<Rightarrow> Inr (s, False)
           | Inl TypeError \<Rightarrow> Inr (s, False)
           | Inl e \<Rightarrow> Inl e
           | Inr _ \<Rightarrow>
               Inr (s\<lparr>pending_transactions := pending_transactions s @ [transaction]\<rparr>, True))"

text \<open>
  \<open>mine_pending_transactions\<close>: \<open>None\<close> when the proof-of-work search never returns,
  \<open>Inl IndexError\<close> when \<open>self.chain[-1]\<close> is read on an empty chain (nothing has been
  changed at that point).
\<close>

definition mine_pending_transactions ::
    "digest \<Rightarrow> string \<Rightarrow> blockchain \<Rightarrow> (error + (blockchain \<times> bool)) option" where
  "mine_pending_transactions dg now s =
     (if pending_transactions s = [] then Some (Inr (s, False))
      else case get_latest_block s of
             Inl e \<Rightarrow> Some (Inl e)
           | Inr latest_block \<Rightarrow>
               (case mine_block dg (difficulty s)
                       (Block dg (index latest_block + 1) now
                          (PList (pending_transactions s)) (hash latest_block) 0) of
                  None \<Rightarrow> None
                | Some new_block \<Rightarrow>
                    Some (Inr (save_chain
                      (s\<lparr>chain_blocks := chain_blocks s @ [new_block],
                         pending_transactions := []\<rparr>), True))))"

text \<open>\<open>is_chain_valid\<close>: the loop over \<open>range(1, len(self.chain))\<close> with its three checks.\<close>

fun check_blocks :: "digest \<Rightarrow> nat \<Rightarrow> block list \<Rightarrow> nat list \<Rightarrow> bool" where
  "check_blocks dg d c [] = True"
| "check_blocks dg d c (i # rest) =
     (let current_block = c ! i; previous_block = c ! (i - 1) in
      if hash current_block \<noteq> calculate_hash dg current_block then False
      else if previous_hash current_block \<noteq> hash previous_block then False
      else if \<not> startswith (hash current_block) (target d) then False
      else check_blocks dg d c rest)"

definition is_chain_valid :: "digest \<Rightarrow> blockchain \<Rightarrow> bool" where
  "is_chain_valid dg s =
     check_blocks dg (difficulty s) (chain_blocks s) [1 ..< length (chain_blocks s)]"

subsection \<open>Inventory\<close>

text \<open>
  The inventory is a Python dictionary: an association list in insertion order, updated in
  place for a key already present and extended at the end for a new one.
\<close>

type_synonym inventory = "(pyval \<times> int) list"

definition inv_get :: "inventory \<Rightarrow> pyval \<Rightarrow> int" where
  "inv_get inventory k = (case map_of inventory k of None \<Rightarrow> 0 | Some q \<Rightarrow> q)"

definition apply_transaction :: "inventory \<Rightarrow> pyval \<Rightarrow> error + inventory" where
  "apply_transaction inventory transaction =
     (if is_dict transaction \<and> has_key ''item_id'' transaction \<and> has_key ''change'' transaction
      then
        (let item_id = getitem transaction ''item_id'' in
         case py_int (getitem transaction ''change'') of
           Inl e \<Rightarrow> Inl e
         | Inr change \<Rightarrow>
             (case dict_key item_id of
                Inl e \<Rightarrow> Inl e
              | Inr k \<Rightarrow> Inr (AList.update k (inv_get inventory k + change) inventory)))
      else Inr inventory)"

fun apply_transactions :: "inventory \<Rightarrow> pyval list \<Rightarrow> error + inventory" where
  "apply_transactions inventory [] = Inr inventory"
| "apply_transactions inventory (t # ts) =
     (case apply_transaction inventory t of
        Inl e \<Rightarrow> Inl e
      | Inr inventory' \<Rightarrow> apply_transactions inventory' ts)"

text \<open>
  A block whose payload is a single dictionary is read as a one-element batch; a payload
  that is neither a dictionary nor a list is skipped.
\<close>

fun block_transactions :: "pyval \<Rightarrow> pyval list option" where
  "block_transactions (PDict kvs) = Some [PDict kvs]"
| "block_transactions (PList ts) = Some ts"
| "block_transactions v = None"

fun apply_blocks :: "inventory \<Rightarrow> block list \<Rightarrow> error + inventory" where
  "apply_blocks inventory [] = Inr inventory"
| "apply_blocks inventory (b # bs) =
     (case block_transactions (transactions b) of
        None \<Rightarrow> apply_blocks inventory bs
      | Some ts \<Rightarrow>
          (case apply_transactions inventory ts of
             Inl e \<Rightarrow> Inl e
           | Inr inventory' \<Rightarrow> apply_blocks inventory' bs))"

text \<open>\<open>get_inventory\<close> returns \<open>None\<close> for a chain that fails validation.\<close>

definition get_inventory :: "digest \<Rightarrow> blockchain \<Rightarrow> error + inventory option" where
  "get_inventory dg s =
     (if \<not> is_chain_valid dg s then Inr None
      else case apply_blocks [] (drop 1 (chain_blocks s)) of
             Inl e \<Rightarrow> Inl e
           | Inr inventory \<Rightarrow> Inr (Some inventory))"

section \<open>The application's submission path\<close>

text \<open>
  \<open>InventoryApp._add_transaction\<close> reports through dialogs and the status label; the
  model returns which of them was shown. Widget updates are not modelled.
\<close>

datatype outcome =
    EnterItemId
  | QuantityNotWhole
  | CannotValidateStock
  | StockError
  | BlockMined
  | WaitingToBeMined
  | FailedToAdd

definition enqueue_and_mine ::
    "digest \<Rightarrow> string \<Rightarrow> blockchain \<Rightarrow> string \<Rightarrow> int
      \<Rightarrow> (error + (blockchain \<times> outcome)) option" where
  "enqueue_and_mine dg now s item_id change =
     (let transaction = PDict [(''item_id'', PStr item_id), (''change'', PInt change)] in
      case add_transaction s transaction of
        Inl e \<Rightarrow> Some (Inl e)
      | Inr (s1, True) \<Rightarrow>
          (case mine_pending_transactions dg now s1 of
             None \<Rightarrow> None
           | Some (Inl e) \<Rightarrow> Some (Inl e)
           | Some (Inr (s2, mined)) \<Rightarrow>
               Some (Inr (s2, if mined then BlockMined else WaitingToBeMined)))
      | Inr (s1, False) \<Rightarrow> Some (Inr (s1, FailedToAdd)))"

definition app_add_transaction ::
    "digest \<Rightarrow> string \<Rightarrow> blockchain \<Rightarrow> string \<Rightarrow> pyval
      \<Rightarrow> (error + (blockchain \<times> outcome)) option" where
  "app_add_transaction dg now s item_id quantity_change =
     (if item_id = [] then Some (Inr (s, EnterItemId))
      else case py_int quantity_change of
             Inl ValueError \<Rightarrow> Some (Inr (s, QuantityNotWhole))
           | Inl e \<Rightarrow> Some (Inl e)
           | Inr change \<Rightarrow>
               if change < 0 then
                 (case get_inventory dg s of
                    Inl e \<Rightarrow> Some (Inl e)
                  | Inr None \<Rightarrow> Some (Inr (s, CannotValidateStock))
                  | Inr (Some current_inventory) \<Rightarrow>
                      (let current_stock = inv_get current_inventory (PStr item_id) in
                       if current_stock + change < 0 then Some (Inr (s, StockError))
                       else enqueue_and_mine dg now s item_id change))
               else enqueue_and_mine dg now s item_id change)"

section \<open>A small digest for running the model\<close>

text \<open>
  The theorems below hold for every digest function. To run the model on concrete chains a
  digest is needed that the simplifier can evaluate: \<open>demo_digest\<close> writes the content out
  in full behind a prefix of \<open>nonce mod 3\<close> zeros, so that different contents have
  different digests and sealing at difficulty 1 or 2 takes one or two steps of the search.
\<close>

fun render :: "pyval \<Rightarrow> string" where
  "render PNone = ''null''"
| "render (PBool b) = (if b then ''true'' else ''false'')"
| "render (PInt i) = (if i < 0 then ''-'' else ''+'') @ replicate (nat \<bar>i\<bar>) CHR ''1''"
| "render (PFloat x) =
     (case x of Finite r \<Rightarrow> ''f'' @ replicate (nat \<bar>\<lfloor>r\<rfloor>\<bar>) CHR ''1'' | _ \<Rightarrow> ''nan'')"
| "render (PStr s) = CHR 0x22 # s @ [CHR 0x22]"
| "render (PList xs) = ''['' @ concat (map (\<lambda>x. render x @ '','') xs) @ '']''"
| "render (PDict kvs) =
     ''{'' @ concat (map (\<lambda>kv. fst kv @ '':'' @ render (snd kv) @ '','') kvs) @ ''}''"

definition demo_digest :: digest where
  "demo_digest c =
     (case c of (i, ts, txs, ph, n) \<Rightarrow>
        replicate (nat (n mod 3)) CHR ''0'' @ ''a'' @ replicate (nat \<bar>i\<bar>) CHR ''i''
          @ ''|'' @ ts @ ''|'' @ render txs @ ''|'' @ ph)"

section \<open>Notions used in the statements\<close>

text \<open>
  \<open>sealed_at\<close>: the digest of the given content with nonce \<open>n\<close> has the prefix that the
  difficulty asks for. The search of \<open>mine_block\<close> returns exactly when some nonce at or
  after the starting one is sealed.
\<close>

definition sealed_at ::
    "digest \<Rightarrow> nat \<Rightarrow> int \<Rightarrow> string \<Rightarrow> pyval \<Rightarrow> string \<Rightarrow> int \<Rightarrow> bool" where
  "sealed_at dg d i ts txs ph n = startswith (dg (i, ts, txs, ph, n)) (target d)"

text \<open>The three checks of \<open>is_chain_valid\<close> at position \<open>i\<close>.\<close>

definition block_ok :: "digest \<Rightarrow> nat \<Rightarrow> block list \<Rightarrow> nat \<Rightarrow> bool" where
  "block_ok dg d c i =
     (hash (c ! i) = calculate_hash dg (c ! i) \<and>
      previous_hash (c ! i) = hash (c ! (i - 1)) \<and>
      startswith (hash (c ! i)) (target d))"

text \<open>
  The states a program run can reach from a construction without a chain file, by
  \<open>add_transaction\<close> and \<open>mine_pending_transactions\<close> calls that return.
\<close>

inductive reachable :: "digest \<Rightarrow> blockchain \<Rightarrow> bool" for dg :: digest where
  construct: "new_blockchain dg now d = Some s \<Longrightarrow> reachable dg s"
| add: "reachable dg s \<Longrightarrow> add_transaction s t = Inr (s', r) \<Longrightarrow> reachable dg s'"
| mine: "reachable dg s \<Longrightarrow> mine_pending_transactions dg now s = Some (Inr (s', r))
           \<Longrightarrow> reachable dg s'"

text \<open>
  What holds of every block of a reachable chain: the stored hash is the digest of the
  content, it meets the difficulty, and every block after the first is linked to its
  predecessor.
\<close>

definition chain_inv :: "digest \<Rightarrow> blockchain \<Rightarrow> bool" where
  "chain_inv dg s =
     (chain_blocks s \<noteq> [] \<and>
      (\<forall>i < length (chain_blocks s).
         hash (chain_blocks s ! i) = calculate_hash dg (chain_blocks s ! i) \<and>
         startswith (hash (chain_blocks s ! i)) (target (difficulty s)) \<and>
         index (chain_blocks s ! i) = int i \<and>
         (0 < i \<longrightarrow> previous_hash (chain_blocks s ! i) = hash (chain_blocks s ! (i - 1)))))"









subsection \<open>A concrete run\<close>

text \<open>
  A chain of difficulty 1 under \<open>demo_digest\<close>: the genesis block and one block that adds
  ten units of item \<open>A\<close>. Both blocks are sealed at nonce 1.
\<close>

definition demo_tx :: pyval where
  "demo_tx = PDict [(''item_id'', PStr ''A''), (''change'', PInt 10)]"

definition demo_genesis :: block where
  "demo_genesis = Block demo_digest 0 ''t0'' (PStr ''Genesis Block'') ''0'' 1"

definition demo_block :: block where
  "demo_block = Block demo_digest 1 ''t1'' (PList [demo_tx]) (hash demo_genesis) 1"

definition demo_fresh :: blockchain where
  "demo_fresh =
     \<lparr>chain_blocks = [demo_genesis], pending_transactions = [], difficulty = 1,
      save_log = [[demo_genesis]]\<rparr>"

definition demo_pending :: blockchain where
  "demo_pending = demo_fresh\<lparr>pending_transactions := [demo_tx]\<rparr>"

definition demo_state :: blockchain where
  "demo_state =
     \<lparr>chain_blocks = [demo_genesis, demo_block], pending_transactions = [], difficulty = 1,
      save_log = [[demo_genesis], [demo_genesis, demo_block]]\<rparr>"

definition demo_zero :: blockchain where
  "demo_zero =
     (let g = Block demo_digest 0 ''t0'' (PStr ''Genesis Block'') ''0'' 0;
          b = Block demo_digest 1 ''t1'' (PList [demo_tx]) (hash g) 0
      in \<lparr>chain_blocks = [g, b], pending_transactions = [], difficulty = 0,
           save_log = [[g], [g, b]]\<rparr>)"

definition demo_forged_block :: block where
  "demo_forged_block =
     demo_block\<lparr>transactions := PList [PDict [(''item_id'', PStr ''A''), (''change'', PInt 11)]]\<rparr>"

definition demo_forged_genesis :: block where
  "demo_forged_genesis = demo_genesis\<lparr>transactions := PStr ''Forged''\<rparr>"




definition demo_forged :: blockchain where
  "demo_forged = demo_state\<lparr>chain_blocks := (chain_blocks demo_state)[1 := demo_forged_block]\<rparr>"

definition demo_float_tx :: pyval where
  "demo_float_tx = PDict [(''item_id'', PStr ''A''), (''change'', PFloat (Finite (7 / 2)))]"

definition demo_string_tx :: pyval where
  "demo_string_tx = PDict [(''item_id'', PStr ''A''), (''change'', PStr ''5'')]"

definition demo_empty_id_tx :: pyval where
  "demo_empty_id_tx = PDict [(''item_id'', PStr []), (''change'', PInt 1)]"

section \<open>Basic facts\<close>

text \<open>What the constructor and the proof-of-work search compute.\<close>

lemma Block_sel [simp]:
  "index (Block dg i ts txs ph n) = i"
  "timestamp (Block dg i ts txs ph n) = ts"
  "transactions (Block dg i ts txs ph n) = txs"
  "previous_hash (Block dg i ts txs ph n) = ph"
  "nonce (Block dg i ts txs ph n) = n"
  "hash (Block dg i ts txs ph n) = dg (i, ts, txs, ph, n)"
  by (simp_all add: Block_def calculate_hash_def Let_def)

lemma calculate_hash_Block [simp]:
  "calculate_hash dg (Block dg i ts txs ph n) = hash (Block dg i ts txs ph n)"
  by (simp add: Block_def calculate_hash_def Let_def)

lemma bump_nonce_Block: "bump_nonce dg (Block dg i ts txs ph n) = Block dg i ts txs ph (n + 1)"
  by (simp add: bump_nonce_def Block_def calculate_hash_def Let_def)

lemma startswith_empty [simp]: "startswith s (target 0)"
  by (simp add: startswith_def target_def)

lemma mine_block_zero: "mine_block dg 0 b = Some b"
  by (subst mine_block.simps) simp


lemma mine_block_least:
  "sealed_at dg d i ts txs ph (n + int k) \<Longrightarrow>
   mine_block dg d (Block dg i ts txs ph n) =
     Some (Block dg i ts txs ph (n + int (LEAST j. sealed_at dg d i ts txs ph (n + int j))))"
proof (induction k arbitrary: n)
  case 0
  then have "sealed_at dg d i ts txs ph n" by simp
  then have "(LEAST j. sealed_at dg d i ts txs ph (n + int j)) = 0"
    by (intro Least_eq_0) simp
  with \<open>sealed_at dg d i ts txs ph n\<close> show ?case
    by (subst mine_block.simps) (simp add: sealed_at_def)
next
  case (Suc k)
  show ?case
  proof (cases "sealed_at dg d i ts txs ph n")
    case True
    then have "(LEAST j. sealed_at dg d i ts txs ph (n + int j)) = 0"
      by (intro Least_eq_0) simp
    with True show ?thesis
      by (subst mine_block.simps) (simp add: sealed_at_def)
  next
    case False
    from Suc.prems have "sealed_at dg d i ts txs ph ((n + 1) + int k)"
      by (simp add: algebra_simps)
    from Suc.IH [OF this]
    have step: "mine_block dg d (Block dg i ts txs ph (n + 1)) =
      Some (Block dg i ts txs ph (n + 1 + int (LEAST j. sealed_at dg d i ts txs ph (n + 1 + int j))))" .
    have least: "(LEAST j. sealed_at dg d i ts txs ph (n + int j)) =
       Suc (LEAST j. sealed_at dg d i ts txs ph (n + int (Suc j)))"
      using Suc.prems False
        Least_Suc [of "\<lambda>j. sealed_at dg d i ts txs ph (n + int j)" "Suc k"] by simp
    have "mine_block dg d (Block dg i ts txs ph n) = mine_block dg d (Block dg i ts txs ph (n + 1))"
      using False by (subst mine_block.simps) (simp add: sealed_at_def bump_nonce_Block)
    with step least show ?thesis
      by (simp add: add.assoc add.commute add.left_commute)
  qed
qed

lemma mine_block_Some_sealed:
  "mine_block dg d b = Some b' \<Longrightarrow> \<exists>k. startswith (hash ((bump_nonce dg ^^ k) b)) (target d)"
proof (induction rule: mine_block.raw_induct[rotated 1, consumes 1])
  case (1 mine_block dg d b b')
  show ?case
  proof (cases "startswith (hash b) (target d)")
    case True
    then show ?thesis by (intro exI[of _ 0]) simp
  next
    case False
    with 1(2) have "mine_block dg d (bump_nonce dg b) = Some b'" by simp
    from 1(1)[OF this]
    obtain k where "startswith (hash ((bump_nonce dg ^^ k) (bump_nonce dg b))) (target d)"
      by blast
    then show ?thesis by (intro exI[of _ "Suc k"]) (simp add: funpow_swap1)
  qed
qed

lemma mine_block_result:
  "mine_block dg d b = Some b' \<Longrightarrow>
     startswith (hash b') (target d) \<and>
     (hash b = calculate_hash dg b \<longrightarrow> hash b' = calculate_hash dg b') \<and>
     index b' = index b \<and> timestamp b' = timestamp b \<and> transactions b' = transactions b \<and>
     previous_hash b' = previous_hash b \<and> nonce b \<le> nonce b'"
proof (induction rule: mine_block.raw_induct[rotated 1, consumes 1])
  case (1 mine_block dg d b b')
  show ?case
  proof (cases "startswith (hash b) (target d)")
    case True
    with 1 show ?thesis by simp
  next
    case False
    with 1(2) have "mine_block dg d (bump_nonce dg b) = Some b'" by simp
    from 1(1)[OF this]
    have ih: "startswith (hash b') (target d)"
      "hash (bump_nonce dg b) = calculate_hash dg (bump_nonce dg b) \<longrightarrow>
         hash b' = calculate_hash dg b'"
      "index b' = index (bump_nonce dg b)" "timestamp b' = timestamp (bump_nonce dg b)"
      "transactions b' = transactions (bump_nonce dg b)"
      "previous_hash b' = previous_hash (bump_nonce dg b)"
      "nonce (bump_nonce dg b) \<le> nonce b'"
      by blast+
    have bump: "hash (bump_nonce dg b) = calculate_hash dg (bump_nonce dg b)"
      "index (bump_nonce dg b) = index b" "timestamp (bump_nonce dg b) = timestamp b"
      "transactions (bump_nonce dg b) = transactions b"
      "previous_hash (bump_nonce dg b) = previous_hash b"
      "nonce (bump_nonce dg b) = nonce b + 1"
      by (simp_all add: bump_nonce_def Let_def calculate_hash_def)
    from ih bump show ?thesis by simp
  qed
qed


lemma funpow_bump_Block:
  "(bump_nonce dg ^^ k) (Block dg i ts txs ph n) = Block dg i ts txs ph (n + int k)"
  by (induction k) (simp_all add: bump_nonce_Block algebra_simps)

lemma mine_block_none:
  assumes "\<And>k. \<not> sealed_at dg d i ts txs ph (n + int k)"
  shows "mine_block dg d (Block dg i ts txs ph n) = None"
proof (cases "mine_block dg d (Block dg i ts txs ph n)")
  case None
  then show ?thesis .
next
  case (Some b')
  from mine_block_Some_sealed [OF this] assms show ?thesis
    by (simp add: funpow_bump_Block sealed_at_def)
qed

lemma check_blocks_iff: "check_blocks dg d c js = (\<forall>i \<in> set js. block_ok dg d c i)"
  by (induction js) (auto simp: block_ok_def Let_def)

lemma is_chain_valid_iff:
  "is_chain_valid dg s =
     (\<forall>i. 1 \<le> i \<and> i < length (chain_blocks s) \<longrightarrow> block_ok dg (difficulty s) (chain_blocks s) i)"
  by (auto simp: is_chain_valid_def check_blocks_iff)

lemma mine_block_fresh:
  assumes "sealed_at dg d i ts txs ph (int k)"
  shows "mine_block dg d (Block dg i ts txs ph 0) =
           Some (Block dg i ts txs ph (int (LEAST j. sealed_at dg d i ts txs ph (int j))))"
  using mine_block_least [of dg d i ts txs ph 0 k] assms by simp

lemma add_transaction_frame:
  assumes "add_transaction s t = Inr (s', r)"
  shows "chain_blocks s' = chain_blocks s" "difficulty s' = difficulty s"
    "save_log s' = save_log s"
    "pending_transactions s' = (if r then pending_transactions s @ [t] else pending_transactions s)"
  using assms
  by (auto simp: add_transaction_def split: if_splits sum.splits error.splits)

lemma mine_pending_cases:
  assumes "mine_pending_transactions dg now s = Some (Inr (s', r))"
  shows "(\<not> r \<and> s' = s \<and> pending_transactions s = []) \<or>
         (r \<and> pending_transactions s \<noteq> [] \<and> chain_blocks s \<noteq> [] \<and>
          (\<exists>nb. mine_block dg (difficulty s)
                   (Block dg (index (last (chain_blocks s)) + 1) now
                      (PList (pending_transactions s)) (hash (last (chain_blocks s))) 0) = Some nb \<and>
                s' = save_chain (s\<lparr>chain_blocks := chain_blocks s @ [nb],
                                    pending_transactions := []\<rparr>)))"
  using assms
  by (auto simp: mine_pending_transactions_def get_latest_block_def
           split: if_splits option.splits)

lemma mined_block_facts:
  assumes "mine_block dg d (Block dg i ts txs ph 0) = Some nb"
  shows "hash nb = calculate_hash dg nb" "startswith (hash nb) (target d)"
    "index nb = i" "timestamp nb = ts" "transactions nb = txs" "previous_hash nb = ph"
    "0 \<le> nonce nb"
  using mine_block_result [OF assms] by auto

lemma chain_inv_valid: "chain_inv dg s \<Longrightarrow> is_chain_valid dg s"
  by (auto simp: chain_inv_def is_chain_valid_iff block_ok_def)

lemma chain_inv_construct:
  assumes "new_blockchain dg now d = Some s"
  shows "chain_inv dg s" "difficulty s = d" "pending_transactions s = []"
proof -
  from assms obtain g where
    g: "mine_block dg d (Block dg 0 now (PStr ''Genesis Block'') ''0'' 0) = Some g"
    and s: "s = \<lparr>chain_blocks = [g], pending_transactions = [], difficulty = d, save_log = [[g]]\<rparr>"
    by (auto simp: new_blockchain_def create_genesis_block_def save_chain_def
             split: option.splits)
  from mined_block_facts [OF g] s show "chain_inv dg s"
    by (simp add: chain_inv_def)
  from s show "difficulty s = d" "pending_transactions s = []" by simp_all
qed

lemma chain_inv_add:
  assumes "chain_inv dg s" "add_transaction s t = Inr (s', r)"
  shows "chain_inv dg s'"
  using assms(1) add_transaction_frame [OF assms(2)] by (auto simp: chain_inv_def)

lemma chain_inv_append:
  assumes inv: "chain_inv dg s"
    and nb: "hash nb = calculate_hash dg nb" "startswith (hash nb) (target (difficulty s))"
      "index nb = index (last (chain_blocks s)) + 1" "previous_hash nb = hash (last (chain_blocks s))"
  shows "chain_inv dg (save_chain (s\<lparr>chain_blocks := chain_blocks s @ [nb],
                                       pending_transactions := []\<rparr>))"
proof -
  let ?c = "chain_blocks s"
  from inv have ne: "?c \<noteq> []" by (simp add: chain_inv_def)
  then have last: "last ?c = ?c ! (length ?c - 1)" by (rule last_conv_nth)
  from inv ne have "index (?c ! (length ?c - 1)) = int (length ?c - 1)"
    by (simp add: chain_inv_def)
  with nb(3) last ne have idx: "index nb = int (length ?c)"
    by (cases ?c) simp_all
  show ?thesis
    unfolding chain_inv_def save_chain_def
  proof (simp, intro allI impI)
    fix i assume "i < Suc (length ?c)"
    then consider "i < length ?c" | "i = length ?c" by linarith
    then show "hash ((?c @ [nb]) ! i) = calculate_hash dg ((?c @ [nb]) ! i) \<and>
          startswith (hash ((?c @ [nb]) ! i)) (target (difficulty s)) \<and>
          index ((?c @ [nb]) ! i) = int i \<and>
          (0 < i \<longrightarrow> previous_hash ((?c @ [nb]) ! i) = hash ((?c @ [nb]) ! (i - Suc 0)))"
    proof cases
      case 1
      with inv show ?thesis by (auto simp: chain_inv_def nth_append)
    next
      case 2
      with nb idx last ne show ?thesis by (auto simp: nth_append)
    qed
  qed
qed

lemma chain_inv_mine:
  assumes "chain_inv dg s" "mine_pending_transactions dg now s = Some (Inr (s', r))"
  shows "chain_inv dg s'"
  using mine_pending_cases [OF assms(2)]
proof (elim disjE conjE exE)
  assume "s' = s" with assms(1) show ?thesis by simp
next
  fix nb
  assume nb: "mine_block dg (difficulty s)
                (Block dg (index (last (chain_blocks s)) + 1) now
                   (PList (pending_transactions s)) (hash (last (chain_blocks s))) 0) = Some nb"
    and s': "s' = save_chain (s\<lparr>chain_blocks := chain_blocks s @ [nb], pending_transactions := []\<rparr>)"
  from mined_block_facts [OF nb] assms(1) show ?thesis
    unfolding s' by (intro chain_inv_append) simp_all
qed

lemma reachable_chain_inv: "reachable dg s \<Longrightarrow> chain_inv dg s"
  by (induction rule: reachable.induct)
     (auto intro: chain_inv_construct chain_inv_add chain_inv_mine)

lemma valid_append:
  assumes valid: "is_chain_valid dg s" and ne: "chain_blocks s \<noteq> []"
    and nb: "hash nb = calculate_hash dg nb" "startswith (hash nb) (target (difficulty s))"
      "previous_hash nb = hash (last (chain_blocks s))"
  shows "is_chain_valid dg (save_chain (s\<lparr>chain_blocks := chain_blocks s @ [nb],
                                             pending_transactions := []\<rparr>))"
proof -
  let ?c = "chain_blocks s"
  from ne have last: "last ?c = ?c ! (length ?c - 1)" by (rule last_conv_nth)
  show ?thesis
    unfolding is_chain_valid_iff save_chain_def
  proof (simp, intro allI impI)
    fix i assume i: "Suc 0 \<le> i \<and> i < Suc (length ?c)"
    then consider "i < length ?c" | "i = length ?c" by linarith
    then show "block_ok dg (difficulty s) (?c @ [nb]) i"
    proof cases
      case 1
      with valid i have "block_ok dg (difficulty s) ?c i" by (simp add: is_chain_valid_iff)
      with 1 i show ?thesis by (auto simp: block_ok_def nth_append)
    next
      case 2
      with nb last ne show ?thesis by (auto simp: block_ok_def nth_append)
    qed
  qed
qed

lemma valid_mine:
  assumes "is_chain_valid dg s" "mine_pending_transactions dg now s = Some (Inr (s', r))"
  shows "is_chain_valid dg s'"
  using mine_pending_cases [OF assms(2)]
proof (elim disjE conjE exE)
  assume "s' = s" with assms(1) show ?thesis by simp
next
  fix nb
  assume ne: "chain_blocks s \<noteq> []"
    and nb: "mine_block dg (difficulty s)
                (Block dg (index (last (chain_blocks s)) + 1) now
                   (PList (pending_transactions s)) (hash (last (chain_blocks s))) 0) = Some nb"
    and s': "s' = save_chain (s\<lparr>chain_blocks := chain_blocks s @ [nb], pending_transactions := []\<rparr>)"
  from mined_block_facts [OF nb] assms(1) ne show ?thesis
    unfolding s' by (intro valid_append) simp_all
qed

lemma reachable_difficulty_zero:
  "reachable dg s \<Longrightarrow> difficulty s = 0 \<Longrightarrow> \<forall>b \<in> set (chain_blocks s). nonce b = 0"
proof (induction rule: reachable.induct)
  case (construct now d s)
  then show ?case
    by (auto simp: new_blockchain_def create_genesis_block_def save_chain_def mine_block_zero
             split: option.splits)
next
  case (add s t s' r)
  with add_transaction_frame [OF add.hyps(2)] show ?case by simp
next
  case (mine s now s' r)
  from mine_pending_cases [OF mine.hyps(2)] mine.IH mine.prems show ?case
    by (auto simp: save_chain_def mine_block_zero)
qed

lemma demo_fresh_run: "new_blockchain demo_digest ''t0'' 1 = Some demo_fresh"
  by code_simp

lemma demo_pending_run: "add_transaction demo_fresh demo_tx = Inr (demo_pending, True)"
  by code_simp

lemma demo_state_run:
  "mine_pending_transactions demo_digest ''t1'' demo_pending = Some (Inr (demo_state, True))"
  by code_simp

lemma demo_reachable: "reachable demo_digest demo_state"
  by (rule reachable.mine [OF reachable.add [OF reachable.construct [OF demo_fresh_run]
        demo_pending_run] demo_state_run])

lemma demo_zero_run:
  "new_blockchain demo_digest ''t0'' 0
     = Some \<lparr>chain_blocks = [Block demo_digest 0 ''t0'' (PStr ''Genesis Block'') ''0'' 0],
             pending_transactions = [], difficulty = 0,
             save_log = [[Block demo_digest 0 ''t0'' (PStr ''Genesis Block'') ''0'' 0]]\<rparr>"
  by code_simp

lemma demo_zero_reachable: "reachable demo_digest demo_zero"
proof -
  let ?g = "Block demo_digest 0 ''t0'' (PStr ''Genesis Block'') ''0'' 0"
  let ?s0 = "\<lparr>chain_blocks = [?g], pending_transactions = [], difficulty = 0,
               save_log = [[?g]]\<rparr>"
  have "new_blockchain demo_digest ''t0'' 0 = Some ?s0" by code_simp
  then have "reachable demo_digest ?s0" by (rule reachable.construct)
  moreover have "add_transaction ?s0 demo_tx
      = Inr (?s0\<lparr>pending_transactions := [demo_tx]\<rparr>, True)" by code_simp
  ultimately have "reachable demo_digest (?s0\<lparr>pending_transactions := [demo_tx]\<rparr>)"
    by (rule reachable.add)
  moreover have "mine_pending_transactions demo_digest ''t1''
      (?s0\<lparr>pending_transactions := [demo_tx]\<rparr>) = Some (Inr (demo_zero, True))" by code_simp
  ultimately show ?thesis by (rule reachable.mine)
qed

section \<open>Sealing\<close>

text \<open>
  C9. At difficulty 0 \<open>mine_block\<close> returns at once, with the block as it was given: the
  search loop is not entered, so the nonce and the stored hash are unchanged. Hence every
  block of a chain built at difficulty 0, the genesis block included, has nonce 0, and its
  stored hash is the digest of its fields.
\<close>

theorem difficulty_zero_immediate:
  "mine_block dg 0 b = Some b \<and>
   (reachable dg s \<longrightarrow> difficulty s = 0 \<longrightarrow>
      (\<forall>b' \<in> set (chain_blocks s). nonce b' = 0 \<and> hash b' = calculate_hash dg b'))"
proof (intro conjI impI ballI)
  show "mine_block dg 0 b = Some b" by (rule mine_block_zero)
next
  fix b' assume r: "reachable dg s" and d: "difficulty s = 0" and b': "b' \<in> set (chain_blocks s)"
  from reachable_difficulty_zero [OF r d] b' show "nonce b' = 0" by blast
  from b' obtain i where "i < length (chain_blocks s)" "b' = chain_blocks s ! i"
    by (auto simp: in_set_conv_nth)
  with reachable_chain_inv [OF r] show "hash b' = calculate_hash dg b'"
    by (simp add: chain_inv_def)
qed

theorem difficulty_zero_immediate_witness:
  "reachable demo_digest demo_zero \<and> difficulty demo_zero = 0 \<and>
   mine_block demo_digest 0 demo_genesis = Some demo_genesis \<and>
   length (chain_blocks demo_zero) = 2 \<and>
   nonce (chain_blocks demo_zero ! 0) = 0 \<and>
   hash (chain_blocks demo_zero ! 0) = calculate_hash demo_digest (chain_blocks demo_zero ! 0) \<and>
   nonce (chain_blocks demo_zero ! 1) = 0 \<and>
   hash (chain_blocks demo_zero ! 1) = calculate_hash demo_digest (chain_blocks demo_zero ! 1)"
proof -
  have d: "difficulty demo_zero = 0" by code_simp
  have l: "length (chain_blocks demo_zero) = 2" by code_simp
  then have m: "chain_blocks demo_zero ! 0 \<in> set (chain_blocks demo_zero)"
    "chain_blocks demo_zero ! 1 \<in> set (chain_blocks demo_zero)"
    by simp_all
  from difficulty_zero_immediate [of demo_digest demo_genesis demo_zero] demo_zero_reachable d l m
  show ?thesis by blast
qed

section \<open>Mining the pending queue\<close>

text \<open>
  C8. \<open>mine_pending_transactions\<close> on an empty pending queue returns \<open>False\<close> (nothing
  was mined) and not an error, and the state it leaves is the state it was given: chain,
  pending queue, and with them the chain length and the projected inventory, are unchanged.
\<close>

theorem mine_pending_empty_noop:
  assumes "pending_transactions s = []"
  shows "mine_pending_transactions dg now s = Some (Inr (s, False))"
  using assms by (simp add: mine_pending_transactions_def)

theorem mine_pending_empty_noop_witness:
  "pending_transactions demo_state = [] \<and>
   mine_pending_transactions demo_digest ''t2'' demo_state = Some (Inr (demo_state, False))"
proof -
  have p: "pending_transactions demo_state = []" by (simp add: demo_state_def)
  from mine_pending_empty_noop [OF p, of demo_digest "''t2''"] p show ?thesis by simp
qed

text \<open>
  C3. With a non-empty pending queue (and a chain that has its genesis block),
  \<open>mine_pending_transactions\<close> appends exactly one block: its index is the latest index plus
  one, its transactions are the whole pending queue in queue order, its previous hash is the
  latest block's hash; it is sealed at the chain's difficulty (the stored hash is the digest
  of the content and has the required prefix); afterwards the pending queue is empty and
  \<open>save_chain\<close> has been called with the new chain. The search has no bound: it returns
  provided some nonce seals the new block, which is the hypothesis on \<open>k\<close>.
\<close>

theorem mine_pending_appends_sealed_block:
  assumes "pending_transactions s \<noteq> []" and "chain_blocks s \<noteq> []"
    and "sealed_at dg (difficulty s) (index (last (chain_blocks s)) + 1) now
           (PList (pending_transactions s)) (hash (last (chain_blocks s))) (int k)"
  shows "\<exists>s' b. mine_pending_transactions dg now s = Some (Inr (s', True)) \<and>
           chain_blocks s' = chain_blocks s @ [b] \<and>
           index b = index (last (chain_blocks s)) + 1 \<and>
           timestamp b = now \<and>
           transactions b = PList (pending_transactions s) \<and>
           previous_hash b = hash (last (chain_blocks s)) \<and>
           hash b = calculate_hash dg b \<and>
           startswith (hash b) (target (difficulty s)) \<and>
           pending_transactions s' = [] \<and>
           difficulty s' = difficulty s \<and>
           save_log s' = save_log s @ [chain_blocks s']"
proof -
  let ?new = "Block dg (index (last (chain_blocks s)) + 1) now
                (PList (pending_transactions s)) (hash (last (chain_blocks s))) 0"
  from mine_block_fresh [OF assms(3)] obtain b where b: "mine_block dg (difficulty s) ?new = Some b"
    by blast
  let ?s' = "save_chain (s\<lparr>chain_blocks := chain_blocks s @ [b], pending_transactions := []\<rparr>)"
  from b assms(1,2) have "mine_pending_transactions dg now s = Some (Inr (?s', True))"
    by (simp add: mine_pending_transactions_def get_latest_block_def)
  moreover have "chain_blocks ?s' = chain_blocks s @ [b]" "pending_transactions ?s' = []"
    "difficulty ?s' = difficulty s" "save_log ?s' = save_log s @ [chain_blocks ?s']"
    by (simp_all add: save_chain_def)
  ultimately show ?thesis using mined_block_facts [OF b] by blast
qed

theorem mine_pending_appends_sealed_block_witness:
  "\<exists>s' b. mine_pending_transactions demo_digest ''t1'' demo_pending = Some (Inr (s', True)) \<and>
      chain_blocks s' = chain_blocks demo_pending @ [b] \<and>
      index b = index (last (chain_blocks demo_pending)) + 1 \<and>
      timestamp b = ''t1'' \<and>
      transactions b = PList (pending_transactions demo_pending) \<and>
      previous_hash b = hash (last (chain_blocks demo_pending)) \<and>
      hash b = calculate_hash demo_digest b \<and>
      startswith (hash b) (target (difficulty demo_pending)) \<and>
      pending_transactions s' = [] \<and>
      difficulty s' = difficulty demo_pending \<and>
      save_log s' = save_log demo_pending @ [chain_blocks s']"
proof -
  have h1: "pending_transactions demo_pending \<noteq> []" by code_simp
  have h2: "chain_blocks demo_pending \<noteq> []" by code_simp
  have h3: "sealed_at demo_digest (difficulty demo_pending)
              (index (last (chain_blocks demo_pending)) + 1) ''t1''
              (PList (pending_transactions demo_pending))
              (hash (last (chain_blocks demo_pending))) (int 1)" by code_simp
  show ?thesis by (rule mine_pending_appends_sealed_block [OF h1 h2 h3])
qed

section \<open>Validation\<close>

text \<open>
  C2. Every state reachable from a construction without a chain file passes
  \<open>is_chain_valid\<close>, and every block of its chain has a stored hash equal to the digest of
  its content, meets the difficulty prefix, and (after the first) is linked to the hash of
  its predecessor. Moreover a call of \<open>mine_pending_transactions\<close> that returns takes any
  chain that passes validation to one that passes validation.
\<close>

theorem reachable_chain_valid:
  "(reachable dg s \<longrightarrow>
      is_chain_valid dg s \<and>
      (\<forall>i < length (chain_blocks s).
         hash (chain_blocks s ! i) = calculate_hash dg (chain_blocks s ! i) \<and>
         startswith (hash (chain_blocks s ! i)) (target (difficulty s)) \<and>
         (0 < i \<longrightarrow> previous_hash (chain_blocks s ! i) = hash (chain_blocks s ! (i - 1))))) \<and>
   (is_chain_valid dg s0 \<longrightarrow> mine_pending_transactions dg now s0 = Some (Inr (s1, r)) \<longrightarrow>
      is_chain_valid dg s1)"
proof (intro conjI impI)
  assume "reachable dg s"
  then have inv: "chain_inv dg s" by (rule reachable_chain_inv)
  then show "is_chain_valid dg s" by (rule chain_inv_valid)
  from inv show "\<forall>i < length (chain_blocks s).
         hash (chain_blocks s ! i) = calculate_hash dg (chain_blocks s ! i) \<and>
         startswith (hash (chain_blocks s ! i)) (target (difficulty s)) \<and>
         (0 < i \<longrightarrow> previous_hash (chain_blocks s ! i) = hash (chain_blocks s ! (i - 1)))"
    by (auto simp: chain_inv_def)
next
  assume "is_chain_valid dg s0" "mine_pending_transactions dg now s0 = Some (Inr (s1, r))"
  then show "is_chain_valid dg s1" by (rule valid_mine)
qed

theorem reachable_chain_valid_witness:
  "reachable demo_digest demo_state \<and>
   is_chain_valid demo_digest demo_pending \<and>
   mine_pending_transactions demo_digest ''t1'' demo_pending = Some (Inr (demo_state, True)) \<and>
   is_chain_valid demo_digest demo_state \<and>
   length (chain_blocks demo_state) = 2 \<and>
   hash (chain_blocks demo_state ! 0) = calculate_hash demo_digest (chain_blocks demo_state ! 0) \<and>
   startswith (hash (chain_blocks demo_state ! 0)) (target (difficulty demo_state)) \<and>
   hash (chain_blocks demo_state ! 1) = calculate_hash demo_digest (chain_blocks demo_state ! 1) \<and>
   startswith (hash (chain_blocks demo_state ! 1)) (target (difficulty demo_state)) \<and>
   previous_hash (chain_blocks demo_state ! 1) = hash (chain_blocks demo_state ! 0)"
proof -
  have v: "is_chain_valid demo_digest demo_pending" by code_simp
  have l: "length (chain_blocks demo_state) = 2" by code_simp
  have "(0::nat) < 2" "(1::nat) < 2" "(0::nat) < 1" "(1::nat) - 1 = 0" by simp_all
  with reachable_chain_valid [of demo_digest demo_state demo_pending "''t1''" demo_state True]
    demo_reachable demo_state_run v l
  show ?thesis by metis
qed

text \<open>
  C1 (as the code has it). In a chain that passes validation, replacing a block at an
  index from 1 on by one with the same stored hash but a content whose digest differs makes
  \<open>is_chain_valid\<close> return \<open>False\<close>. The genesis block is outside the loop of
  \<open>is_chain_valid\<close>, which starts at index 1 and checks the hash of the current block only.
\<close>

theorem tampering_detected_after_genesis:
  assumes valid: "is_chain_valid dg s"
    and i: "1 \<le> i" "i < length (chain_blocks s)"
    and same_hash: "hash b' = hash (chain_blocks s ! i)"
    and changed: "calculate_hash dg b' \<noteq> calculate_hash dg (chain_blocks s ! i)"
  shows "\<not> is_chain_valid dg (s\<lparr>chain_blocks := (chain_blocks s)[i := b']\<rparr>)"
proof
  assume v': "is_chain_valid dg (s\<lparr>chain_blocks := (chain_blocks s)[i := b']\<rparr>)"
  from valid i have "hash (chain_blocks s ! i) = calculate_hash dg (chain_blocks s ! i)"
    by (simp add: is_chain_valid_iff block_ok_def)
  moreover from v' i have "hash b' = calculate_hash dg b'"
    by (auto simp: is_chain_valid_iff block_ok_def dest!: spec[of _ i])
  ultimately show False using same_hash changed by simp
qed

theorem tampering_detected_after_genesis_witness:
  "is_chain_valid demo_digest demo_state \<and>
   demo_forged_block \<noteq> chain_blocks demo_state ! 1 \<and>
   hash demo_forged_block = hash (chain_blocks demo_state ! 1) \<and>
   \<not> is_chain_valid demo_digest
       (demo_state\<lparr>chain_blocks := (chain_blocks demo_state)[1 := demo_forged_block]\<rparr>)"
proof -
  have h1: "is_chain_valid demo_digest demo_state" by code_simp
  have h2: "1 \<le> (1::nat)" by simp
  have h3: "1 < length (chain_blocks demo_state)" by code_simp
  have h4: "hash demo_forged_block = hash (chain_blocks demo_state ! 1)" by code_simp
  have h5: "calculate_hash demo_digest demo_forged_block
              \<noteq> calculate_hash demo_digest (chain_blocks demo_state ! 1)" by code_simp
  have h6: "demo_forged_block \<noteq> chain_blocks demo_state ! 1" by code_simp
  from tampering_detected_after_genesis [OF h1 h2 h3 h4 h5] h1 h4 h6 show ?thesis by blast
qed

text \<open>
  C1 as stated fails at the genesis block: the payload of the genesis block of a valid chain
  is altered, its stored hash is left as it was (and no longer is the digest of the content),
  and \<open>is_chain_valid\<close> still returns \<open>True\<close>.
\<close>

theorem genesis_tampering_undetected:
  "is_chain_valid demo_digest demo_state \<and>
   chain_blocks demo_state ! 0 = demo_genesis \<and>
   transactions demo_forged_genesis \<noteq> transactions demo_genesis \<and>
   hash demo_forged_genesis = hash demo_genesis \<and>
   hash demo_forged_genesis \<noteq> calculate_hash demo_digest demo_forged_genesis \<and>
   is_chain_valid demo_digest
     (demo_state\<lparr>chain_blocks := (chain_blocks demo_state)[0 := demo_forged_genesis]\<rparr>)"
  by code_simp

section \<open>Facts about the inventory fold\<close>









lemma apply_blocks_append:
  "apply_blocks acc (xs @ ys) =
     (case apply_blocks acc xs of Inl e \<Rightarrow> Inl e | Inr a \<Rightarrow> apply_blocks a ys)"
  by (induction xs arbitrary: acc) (auto split: sum.splits option.splits)





section \<open>Inventory\<close>



text \<open>
  C5. \<open>get_inventory\<close> returns \<open>None\<close>, which is not a mapping, exactly when the chain
  fails validation: a chain that fails validation never yields an inventory, partial or
  otherwise, and the fold over the blocks is evaluated only for a chain that passes.
\<close>

theorem invalid_chain_no_inventory:
  "(get_inventory dg s = Inr None) = (\<not> is_chain_valid dg s)"
  by (simp add: get_inventory_def split: sum.splits)

theorem invalid_chain_no_inventory_witness:
  "\<not> is_chain_valid demo_digest demo_forged \<and> get_inventory demo_digest demo_forged = Inr None"
proof -
  have "\<not> is_chain_valid demo_digest demo_forged" by code_simp
  with invalid_chain_no_inventory [of demo_digest demo_forged] show ?thesis by simp
qed

section \<open>Submission\<close>

text \<open>
  C6. A submission for a named item with a negative change that would take the item's
  stock in the current validated inventory below zero ends with the stock error, before
  anything is enqueued: the state returned is the state given, so chain, pending queue and
  projected inventory are unchanged.
\<close>

theorem insufficient_stock_rejected:
  assumes "item_id \<noteq> []" and "py_int quantity_change = Inr change" and "change < 0"
    and "get_inventory dg s = Inr (Some inventory)"
    and "inv_get inventory (PStr item_id) + change < 0"
  shows "app_add_transaction dg now s item_id quantity_change = Some (Inr (s, StockError))"
  using assms by (simp add: app_add_transaction_def Let_def)

theorem insufficient_stock_rejected_witness:
  "get_inventory demo_digest demo_state = Inr (Some [(PStr ''A'', 10)]) \<and>
   app_add_transaction demo_digest ''t2'' demo_state ''A'' (PInt (- 11))
     = Some (Inr (demo_state, StockError))"
proof -
  have h1: "''A'' \<noteq> []" by simp
  have h2: "py_int (PInt (- 11)) = Inr (- 11)" by simp
  have h3: "(- 11 :: int) < 0" by simp
  have h4: "get_inventory demo_digest demo_state = Inr (Some [(PStr ''A'', 10)])" by code_simp
  have h5: "inv_get [(PStr ''A'', 10)] (PStr ''A'') + (- 11) < 0" by code_simp
  from insufficient_stock_rejected [OF h1 h2 h3 h4 h5, of "''t2''"] h4 show ?thesis by simp
qed

section \<open>Enqueueing\<close>

text \<open>
  C7 (as the code has it). \<open>add_transaction\<close> accepts a transaction exactly when it is a
  dictionary with the keys \<open>item_id\<close> and \<open>change\<close> whose \<open>change\<close> is accepted by
  \<open>int()\<close>; the \<open>item_id\<close> is not examined beyond \<open>str()\<close>, which accepts every value.
  An accepted transaction is appended, as it is, to the end of the pending queue and
  nothing else changes; when \<open>False\<close> is returned the state is unchanged.
\<close>

theorem add_transaction_accepts_iff:
  "((\<exists>s'. add_transaction s t = Inr (s', True)) =
      (is_dict t \<and> has_key ''item_id'' t \<and> has_key ''change'' t \<and>
       (\<exists>n. py_int (getitem t ''change'') = Inr n))) \<and>
   (add_transaction s t = Inr (s1, True) \<longrightarrow>
      s1 = s\<lparr>pending_transactions := pending_transactions s @ [t]\<rparr>) \<and>
   (add_transaction s t = Inr (s2, False) \<longrightarrow> s2 = s)"
  by (auto simp: add_transaction_def split: sum.splits error.splits)

theorem add_transaction_accepts_iff_witness:
  "is_dict demo_tx \<and> has_key ''item_id'' demo_tx \<and> has_key ''change'' demo_tx \<and>
   py_int (getitem demo_tx ''change'') = Inr 10 \<and>
   add_transaction demo_fresh demo_tx
     = Inr (demo_fresh\<lparr>pending_transactions := pending_transactions demo_fresh @ [demo_tx]\<rparr>, True) \<and>
   add_transaction demo_fresh (PStr ''A'') = Inr (demo_fresh, False)"
proof -
  have h: "is_dict demo_tx" "has_key ''item_id'' demo_tx" "has_key ''change'' demo_tx"
    "py_int (getitem demo_tx ''change'') = Inr 10"
    by (simp_all add: demo_tx_def)
  then have "is_dict demo_tx \<and> has_key ''item_id'' demo_tx \<and> has_key ''change'' demo_tx \<and>
       (\<exists>n. py_int (getitem demo_tx ''change'') = Inr n)" by blast
  with add_transaction_accepts_iff [of demo_fresh demo_tx]
  obtain s' where s': "add_transaction demo_fresh demo_tx = Inr (s', True)" by blast
  with add_transaction_accepts_iff [of demo_fresh demo_tx s']
  have "s' = demo_fresh\<lparr>pending_transactions := pending_transactions demo_fresh @ [demo_tx]\<rparr>"
    by blast
  moreover have "add_transaction demo_fresh (PStr ''A'') = Inr (demo_fresh, False)"
    by (simp add: add_transaction_def)
  ultimately show ?thesis using h s' by simp
qed

text \<open>
  C7 as stated fails for an empty \<open>item_id\<close>: the transaction is accepted and enqueued.
\<close>

theorem empty_item_id_accepted:
  "getitem demo_empty_id_tx ''item_id'' = PStr [] \<and>
   add_transaction demo_fresh demo_empty_id_tx
     = Inr (demo_fresh\<lparr>pending_transactions := [demo_empty_id_tx]\<rparr>, True)"
  by code_simp

text \<open>
  C10. A transaction whose \<open>change\<close> is a finite float, or a string that \<open>int()\<close> can
  read, is accepted by \<open>add_transaction\<close> and enqueued as it is; mining seals it, still
  as it is, into the new block; and \<open>get_inventory\<close> then adds \<open>int(change)\<close> to the
  item's stock, which for a float is its value truncated toward zero.
\<close>

theorem non_integer_change_stored_and_truncated:
  assumes v: "(v = PFloat (Finite r) \<and> n = (if 0 \<le> r then \<lfloor>r\<rfloor> else \<lceil>r\<rceil>)) \<or>
              (v = PStr str \<and> int_of_str str = Some n)"
    and t: "t = PDict [(''item_id'', PStr item), (''change'', v)]"
    and valid: "is_chain_valid dg s" and ne: "chain_blocks s \<noteq> []"
    and p: "pending_transactions s = []"
    and inv: "get_inventory dg s = Inr (Some inventory)"
    and seal: "sealed_at dg (difficulty s) (index (last (chain_blocks s)) + 1) now
                 (PList [t]) (hash (last (chain_blocks s))) (int k)"
  shows "\<exists>s1 s2. add_transaction s t = Inr (s1, True) \<and>
           pending_transactions s1 = [t] \<and>
           mine_pending_transactions dg now s1 = Some (Inr (s2, True)) \<and>
           transactions (last (chain_blocks s2)) = PList [t] \<and>
           get_inventory dg s2 =
             Inr (Some (AList.update (PStr item) (inv_get inventory (PStr item) + n) inventory))"
proof -
  from v have n: "py_int v = Inr n" by (auto simp: py_trunc_def)
  let ?s1 = "s\<lparr>pending_transactions := [t]\<rparr>"
  from n have add: "add_transaction s t = Inr (?s1, True)"
    by (simp add: add_transaction_def t p)
  let ?new = "Block dg (index (last (chain_blocks s)) + 1) now (PList [t])
                (hash (last (chain_blocks s))) 0"
  from mine_block_fresh [OF seal] obtain b where b: "mine_block dg (difficulty s) ?new = Some b"
    by blast
  note facts = mined_block_facts [OF b]
  let ?s2 = "save_chain (?s1\<lparr>chain_blocks := chain_blocks ?s1 @ [b], pending_transactions := []\<rparr>)"
  from b ne have mine: "mine_pending_transactions dg now ?s1 = Some (Inr (?s2, True))"
    by (simp add: mine_pending_transactions_def get_latest_block_def)
  have v1: "is_chain_valid dg ?s1" using valid by (simp add: is_chain_valid_def)
  have v2: "is_chain_valid dg ?s2"
    using v1 ne facts by (intro valid_append) simp_all
  from inv valid have old: "apply_blocks [] (drop 1 (chain_blocks s)) = Inr inventory"
    by (simp add: get_inventory_def split: sum.splits)
  have step: "apply_transaction inventory t
      = Inr (AList.update (PStr item) (inv_get inventory (PStr item) + n) inventory)"
    using n by (simp add: apply_transaction_def t)
  from ne have d: "drop 1 (chain_blocks ?s2) = drop 1 (chain_blocks s) @ [b]"
    by (cases "chain_blocks s") (simp_all add: save_chain_def)
  have "apply_blocks [] (drop 1 (chain_blocks s) @ [b])
      = Inr (AList.update (PStr item) (inv_get inventory (PStr item) + n) inventory)"
    using old step facts(5) by (simp add: apply_blocks_append)
  with d have "apply_blocks [] (drop 1 (chain_blocks ?s2))
      = Inr (AList.update (PStr item) (inv_get inventory (PStr item) + n) inventory)"
    by simp
  with v2 have "get_inventory dg ?s2 =
      Inr (Some (AList.update (PStr item) (inv_get inventory (PStr item) + n) inventory))"
    by (simp add: get_inventory_def)
  moreover have "transactions (last (chain_blocks ?s2)) = PList [t]"
    using facts(5) by (simp add: save_chain_def)
  moreover have "pending_transactions ?s1 = [t]" by simp
  ultimately show ?thesis using add mine by blast
qed

theorem non_integer_change_stored_and_truncated_witness:
  "(\<exists>s1 s2. add_transaction demo_state demo_float_tx = Inr (s1, True) \<and>
      pending_transactions s1 = [demo_float_tx] \<and>
      mine_pending_transactions demo_digest ''t2'' s1 = Some (Inr (s2, True)) \<and>
      transactions (last (chain_blocks s2)) = PList [demo_float_tx] \<and>
      get_inventory demo_digest s2 = Inr (Some [(PStr ''A'', 13)])) \<and>
   (\<exists>s1 s2. add_transaction demo_state demo_string_tx = Inr (s1, True) \<and>
      pending_transactions s1 = [demo_string_tx] \<and>
      mine_pending_transactions demo_digest ''t2'' s1 = Some (Inr (s2, True)) \<and>
      transactions (last (chain_blocks s2)) = PList [demo_string_tx] \<and>
      get_inventory demo_digest s2 = Inr (Some [(PStr ''A'', 15)]))"
proof -
  have valid: "is_chain_valid demo_digest demo_state" by code_simp
  have ne: "chain_blocks demo_state \<noteq> []" by code_simp
  have p: "pending_transactions demo_state = []" by code_simp
  have inv: "get_inventory demo_digest demo_state = Inr (Some [(PStr ''A'', 10)])" by code_simp
  have vf: "(PFloat (Finite (7 / 2)) = PFloat (Finite (7 / 2)) \<and>
             (3::int) = (if 0 \<le> (7 / 2 :: rat) then \<lfloor>7 / 2 :: rat\<rfloor> else \<lceil>7 / 2 :: rat\<rceil>)) \<or>
            (PFloat (Finite (7 / 2)) = PStr [] \<and> int_of_str [] = Some 3)"
    by code_simp
  have tf: "demo_float_tx = PDict [(''item_id'', PStr ''A''), (''change'', PFloat (Finite (7 / 2)))]"
    by (simp add: demo_float_tx_def)
  have sf: "sealed_at demo_digest (difficulty demo_state)
              (index (last (chain_blocks demo_state)) + 1) ''t2''
              (PList [demo_float_tx]) (hash (last (chain_blocks demo_state))) (int 1)"
    by code_simp
  have vs: "(PStr ''5'' = PFloat (Finite 0) \<and>
             (5::int) = (if 0 \<le> (0 :: rat) then \<lfloor>0 :: rat\<rfloor> else \<lceil>0 :: rat\<rceil>)) \<or>
            (PStr ''5'' = PStr ''5'' \<and> int_of_str ''5'' = Some 5)"
    by code_simp
  have ts: "demo_string_tx = PDict [(''item_id'', PStr ''A''), (''change'', PStr ''5'')]"
    by (simp add: demo_string_tx_def)
  have ss: "sealed_at demo_digest (difficulty demo_state)
              (index (last (chain_blocks demo_state)) + 1) ''t2''
              (PList [demo_string_tx]) (hash (last (chain_blocks demo_state))) (int 1)"
    by code_simp
  have uf: "AList.update (PStr ''A'') (inv_get [(PStr ''A'', 10)] (PStr ''A'') + 3)
              [(PStr ''A'', 10)] = [(PStr ''A'', 13)]" by code_simp
  have us: "AList.update (PStr ''A'') (inv_get [(PStr ''A'', 10)] (PStr ''A'') + 5)
              [(PStr ''A'', 10)] = [(PStr ''A'', 15)]" by code_simp
  from non_integer_change_stored_and_truncated [OF vf tf valid ne p inv sf]
    non_integer_change_stored_and_truncated [OF vs ts valid ne p inv ss]
  show ?thesis unfolding uf us by blast
qed

end
